theory Spec2Isabelle
  imports Main "HOL-Library.AList" "HOL-Library.Sublist"
begin

section \<open>The resource cache of the performance optimizer\<close>

text \<open>
  A shallow embedding of the fetch cache of \<^verbatim>\<open>src/js/performance-optimizer.js\<close>
  (class \<^verbatim>\<open>PerformanceOptimizer\<close>): the wrapper that \<^verbatim>\<open>implementResourceCaching\<close>
  installs over \<^verbatim>\<open>window.fetch\<close>, and the methods \<^verbatim>\<open>shouldCache\<close>,
  \<^verbatim>\<open>getCacheTTL\<close>, \<^verbatim>\<open>isCacheValid\<close> and \<^verbatim>\<open>optimizeMemory\<close>.

  JavaScript strings are modelled as \<^typ>\<open>string\<close>, times and durations in milliseconds as
  \<^typ>\<open>int\<close> (\<^verbatim>\<open>Date.now()\<close> is integer valued), the \<^verbatim>\<open>Map\<close> as an association
  list in insertion order, a thrown exception or rejected promise as the left summand of
  a sum type.
\<close>

subsection \<open>Strings\<close>

text \<open>
  \<^verbatim>\<open>String.prototype.includes\<close>: \<open>str_includes s p\<close> holds when \<open>p\<close> occurs in \<open>s\<close>
  at some position.
\<close>

fun str_includes :: "string \<Rightarrow> string \<Rightarrow> bool" where
  "str_includes [] p = (p = [])"
| "str_includes (c # cs) p = (prefix p (c # cs) \<or> str_includes cs p)"

subsection \<open>Classification of a URL\<close>

text \<open>
  \<^verbatim>\<open>
  shouldCache(url) {
      const cacheableExtensions = ['.json', '.kml', '.jpg', '.jpeg', '.png', '.css', '.js'];
      return cacheableExtensions.some(ext => url.includes(ext)) ||
             url.includes('weather') ||
             url.includes('api');
  }
  \<close>
\<close>

definition cacheableExtensions :: "string list" where
  "cacheableExtensions = [''.json'', ''.kml'', ''.jpg'', ''.jpeg'', ''.png'', ''.css'', ''.js'']"

definition shouldCache :: "string \<Rightarrow> bool" where
  "shouldCache url \<longleftrightarrow>
     list_ex (\<lambda>ext. str_includes url ext) cacheableExtensions
     \<or> str_includes url ''weather''
     \<or> str_includes url ''api''"

text \<open>
  \<^verbatim>\<open>
  getCacheTTL(url) {
      if (url.includes('weather')) return 10 * 60 * 1000; // 10 minutes
      if (url.includes('.kml')) return 60 * 60 * 1000; // 1 hour
      if (url.includes('.jpg') || url.includes('.png')) return 24 * 60 * 60 * 1000; // 24 hours
      return 30 * 60 * 1000; // 30 minutes default
  }
  \<close>
\<close>

definition getCacheTTL :: "string \<Rightarrow> int" where
  "getCacheTTL url =
     (if str_includes url ''weather'' then 10 * 60 * 1000
      else if str_includes url ''.kml'' then 60 * 60 * 1000
      else if str_includes url ''.jpg'' \<or> str_includes url ''.png'' then 24 * 60 * 60 * 1000
      else 30 * 60 * 1000)"

subsection \<open>Request options and their serialization\<close>

text \<open>
  The values that can be passed as \<^verbatim>\<open>options\<close>. An object is the list of its own
  enumerable string-keyed properties in the order \<^verbatim>\<open>Object.keys\<close> enumerates them (for
  the keys of a request configuration, the order in which the fields were written).
  \<open>JNum\<close> is an integer-valued Number (of magnitude below \<open>10\<^sup>2\<^sup>1\<close>, which
  \<^verbatim>\<open>JSON.stringify\<close> writes as decimal digits), \<open>JCircular\<close> a property that refers
  back to an object that encloses it.
\<close>

datatype jsval =
    JUndefined
  | JNull
  | JBool bool
  | JNum int
  | JStr string
  | JBigInt int
  | JFunction
  | JCircular
  | JArray "jsval list"
  | JObject "(string \<times> jsval) list"

text \<open>
  The three ways \<^verbatim>\<open>JSON.stringify\<close> completes: it throws a \<^verbatim>\<open>TypeError\<close>, it
  returns \<^verbatim>\<open>undefined\<close>, or it returns a string.
\<close>

datatype ser = Throws | Undefined | Text string

definition hex_digit :: "nat \<Rightarrow> char" where
  "hex_digit n = (''0123456789abcdef'') ! (n mod 16)"

text \<open>The escapes of \<^verbatim>\<open>QuoteJSONString\<close> (ECMAScript, JSON.stringify).\<close>

definition quote_char :: "char \<Rightarrow> string" where
  "quote_char c =
     (if c = CHR 0x08 then [CHR 0x5C, CHR ''b'']
      else if c = CHR 0x09 then [CHR 0x5C, CHR ''t'']
      else if c = CHR 0x0A then [CHR 0x5C, CHR ''n'']
      else if c = CHR 0x0C then [CHR 0x5C, CHR ''f'']
      else if c = CHR 0x0D then [CHR 0x5C, CHR ''r'']
      else if c = CHR 0x22 then [CHR 0x5C, CHR 0x22]
      else if c = CHR 0x5C then [CHR 0x5C, CHR 0x5C]
      else if (of_char c :: nat) < 0x20
        then [CHR 0x5C, CHR ''u'', CHR ''0'', CHR ''0'',
              hex_digit (of_char c div 16), hex_digit (of_char c)]
      else [c])"

definition QuoteJSONString :: "string \<Rightarrow> string" where
  "QuoteJSONString s = [CHR 0x22] @ concat (map quote_char s) @ [CHR 0x22]"

fun digits :: "nat \<Rightarrow> string" where
  "digits n = (if n < 10 then [hex_digit n] else digits (n div 10) @ [hex_digit (n mod 10)])"

definition NumberToString :: "int \<Rightarrow> string" where
  "NumberToString i = (if i < 0 then ''-'' @ digits (nat (- i)) else digits (nat i))"

fun join :: "string \<Rightarrow> string list \<Rightarrow> string" where
  "join sep [] = []"
| "join sep [x] = x"
| "join sep (x # y # ys) = x @ sep @ join sep (y # ys)"

text \<open>
  \<^verbatim>\<open>JSON.stringify(value)\<close> without replacer or indentation. A BigInt or a cyclic
  structure throws; \<^verbatim>\<open>undefined\<close> and functions give \<^verbatim>\<open>undefined\<close> at top level,
  \<^verbatim>\<open>null\<close> inside an array, and are left out of an object.
\<close>

fun JSON_stringify :: "jsval \<Rightarrow> ser" where
  "JSON_stringify JUndefined = Undefined"
| "JSON_stringify JFunction = Undefined"
| "JSON_stringify JNull = Text ''null''"
| "JSON_stringify (JBool b) = Text (if b then ''true'' else ''false'')"
| "JSON_stringify (JNum i) = Text (NumberToString i)"
| "JSON_stringify (JStr s) = Text (QuoteJSONString s)"
| "JSON_stringify (JBigInt i) = Throws"
| "JSON_stringify JCircular = Throws"
| "JSON_stringify (JArray xs) =
     (let rs = map JSON_stringify xs in
      if Throws \<in> set rs then Throws
      else Text (''['' @ join '','' (map (\<lambda>r. case r of Text t \<Rightarrow> t | _ \<Rightarrow> ''null'') rs) @ '']''))"
| "JSON_stringify (JObject ps) =
     (let rs = map (\<lambda>(k, v). (k, JSON_stringify v)) ps in
      if Throws \<in> snd ` set rs then Throws
      else Text (''{'' @ join '',''
             (concat (map (\<lambda>(k, r). case r of Text t \<Rightarrow> [QuoteJSONString k @ '':'' @ t] | _ \<Rightarrow> []) rs))
             @ ''}''))"

subsection \<open>Errors, responses and the cache\<close>

text \<open>
  \<open>SerializationError\<close> is the \<^verbatim>\<open>TypeError\<close> that \<^verbatim>\<open>JSON.stringify\<close> throws,
  \<open>NetworkFailure\<close> a rejection of the underlying \<^verbatim>\<open>fetch\<close> with its message, and
  \<open>UndefinedProperty\<close> the \<^verbatim>\<open>TypeError\<close> of reading \<^verbatim>\<open>.response\<close> of \<^verbatim>\<open>undefined\<close>.
\<close>

datatype error = SerializationError | NetworkFailure string | UndefinedProperty

record Response =
  status :: nat
  headers :: "(string \<times> string) list"
  body :: string

text \<open>\<^verbatim>\<open>Response.ok\<close>: the status is in the range 200 to 299.\<close>

definition ok :: "Response \<Rightarrow> bool" where
  "ok r \<longleftrightarrow> 200 \<le> status r \<and> status r \<le> 299"

text \<open>\<^verbatim>\<open>Response.clone()\<close>: a second response with the same status, headers and body.\<close>

definition clone :: "Response \<Rightarrow> Response" where
  "clone r = r"

record entry =
  response :: Response
  timestamp :: int
  ttl :: int

text \<open>
  \<^verbatim>\<open>this.cache = new Map()\<close>: the entries in insertion order. \<^verbatim>\<open>set\<close> on a present key
  replaces the value in place, on an absent key appends.
\<close>

type_synonym cache = "(string \<times> entry) list"

definition Map_has :: "cache \<Rightarrow> string \<Rightarrow> bool" where
  "Map_has c k \<longleftrightarrow> map_of c k \<noteq> None"

definition Map_get :: "cache \<Rightarrow> string \<Rightarrow> entry option" where
  "Map_get c k = map_of c k"

definition Map_set :: "string \<Rightarrow> entry \<Rightarrow> cache \<Rightarrow> cache" where
  "Map_set k v c = AList.update k v c"

definition Map_delete :: "string \<Rightarrow> cache \<Rightarrow> cache" where
  "Map_delete k c = AList.delete k c"

text \<open>
  \<^verbatim>\<open>
  isCacheValid(cacheKey) {
      const cached = this.cache.get(cacheKey);
      return cached && (Date.now() - cached.timestamp) < cached.ttl;
  }
  \<close>
\<close>

definition isCacheValid :: "int \<Rightarrow> cache \<Rightarrow> string \<Rightarrow> bool" where
  "isCacheValid now c cacheKey =
     (case Map_get c cacheKey of
        None \<Rightarrow> False
      | Some cached \<Rightarrow> now - timestamp cached < ttl cached)"

subsection \<open>The wrapper around fetch\<close>

text \<open>
  \<^verbatim>\<open>const cacheKey = `${url}_${JSON.stringify(options)}`;\<close>
  An exception of \<^verbatim>\<open>JSON.stringify\<close> leaves the function; \<^verbatim>\<open>undefined\<close> is
  interpolated as the text \<^verbatim>\<open>undefined\<close>.
\<close>

definition cacheKey :: "string \<Rightarrow> jsval \<Rightarrow> error + string" where
  "cacheKey url options =
     (case JSON_stringify options of
        Throws \<Rightarrow> Inl SerializationError
      | Undefined \<Rightarrow> Inr (url @ ''_'' @ ''undefined'')
      | Text s \<Rightarrow> Inr (url @ ''_'' @ s))"

text \<open>\<^verbatim>\<open>this.cache.get(cacheKey).response.clone()\<close>\<close>

definition cached_clone :: "cache \<Rightarrow> string \<Rightarrow> error + Response" where
  "cached_clone c key =
     (case Map_get c key of
        None \<Rightarrow> Inl UndefinedProperty
      | Some cached \<Rightarrow> Inr (clone (response cached)))"

text \<open>
  The underlying \<^verbatim>\<open>originalFetch\<close>: for a URL and options it rejects (\<open>Inl\<close>) or
  resolves with a response (\<open>Inr\<close>).
\<close>

type_synonym transport = "string \<Rightarrow> jsval \<Rightarrow> error + Response"

text \<open>
  The default parameter \<^verbatim>\<open>options = {}\<close>: an \<^verbatim>\<open>undefined\<close> second argument is
  replaced by the empty object.
\<close>

definition default_options :: "jsval \<Rightarrow> jsval" where
  "default_options options = (if options = JUndefined then JObject [] else options)"

text \<open>
  What one call of the wrapper leaves behind: the settled promise, the cache, and the
  calls of \<^verbatim>\<open>originalFetch\<close> it made.
\<close>

record fetch_result =
  result :: "error + Response"
  cache_after :: cache
  transport_calls :: "(string \<times> jsval) list"

text \<open>
  \<^verbatim>\<open>
  window.fetch = async (url, options = {}) => {
      const cacheKey = `${url}_${JSON.stringify(options)}`;
      if (this.cache.has(cacheKey) && this.isCacheValid(cacheKey)) {
          return Promise.resolve(this.cache.get(cacheKey).response.clone());
      }
      try {
          const response = await originalFetch(url, options);
          if (response.ok && this.shouldCache(url)) {
              this.cache.set(cacheKey, {
                  response: response.clone(),
                  timestamp: Date.now(),
                  ttl: this.getCacheTTL(url)
              });
          }
          return response;
      } catch (error) {
          if (this.cache.has(cacheKey)) {
              return this.cache.get(cacheKey).response.clone();
          }
          throw error;
      }
  };
  \<close>
  \<open>now\<close> is the value of \<^verbatim>\<open>Date.now()\<close> read by \<^verbatim>\<open>isCacheValid\<close>, \<open>later\<close> the
  one read after the \<^verbatim>\<open>await\<close> when the entry is built.
\<close>

definition window_fetch ::
  "transport \<Rightarrow> int \<Rightarrow> int \<Rightarrow> cache \<Rightarrow> string \<Rightarrow> jsval \<Rightarrow> fetch_result" where
  "window_fetch originalFetch now later c url options0 =
     (let options = default_options options0 in
      case cacheKey url options of
        Inl err \<Rightarrow> \<lparr>result = Inl err, cache_after = c, transport_calls = []\<rparr>
      | Inr key \<Rightarrow>
          if Map_has c key \<and> isCacheValid now c key
          then \<lparr>result = cached_clone c key, cache_after = c, transport_calls = []\<rparr>
          else
            (case originalFetch url options of
               Inr resp \<Rightarrow>
                 \<lparr>result = Inr resp,
                  cache_after =
                    (if ok resp \<and> shouldCache url
                     then Map_set key
                            \<lparr>response = clone resp, timestamp = later, ttl = getCacheTTL url\<rparr> c
                     else c),
                  transport_calls = [(url, options)]\<rparr>
             | Inl err \<Rightarrow>
                 if Map_has c key
                 then \<lparr>result = cached_clone c key, cache_after = c,
                       transport_calls = [(url, options)]\<rparr>
                 else \<lparr>result = Inl err, cache_after = c,
                       transport_calls = [(url, options)]\<rparr>))"

subsection \<open>The sweep\<close>

text \<open>
  \<^verbatim>\<open>
  optimizeMemory() {
      const now = Date.now();
      for (const [key, value] of this.cache.entries()) {
          if (now - value.timestamp > value.ttl) {
              this.cache.delete(key);
          }
      }
      ...
  }
  \<close>
  The loop visits the entries in order; deleting the entry being visited does not
  disturb the visit of the later ones.
\<close>

fun sweep_loop :: "int \<Rightarrow> (string \<times> entry) list \<Rightarrow> cache \<Rightarrow> cache" where
  "sweep_loop now [] c = c"
| "sweep_loop now ((key, val) # es) c =
     sweep_loop now es (if now - timestamp val > ttl val then Map_delete key c else c)"

definition optimizeMemory :: "int \<Rightarrow> cache \<Rightarrow> cache" where
  "optimizeMemory now c = sweep_loop now c c"

subsection \<open>Histories of the optimizer\<close>

text \<open>
  The cache changes through calls of the wrapper and through sweeps only. A history is a
  list of such events, applied from left to right to the empty map of the constructor.
\<close>

datatype event =
    Fetch transport int int string jsval
  | Sweep int

fun apply_event :: "cache \<Rightarrow> event \<Rightarrow> cache" where
  "apply_event c (Fetch net now later url options) =
     cache_after (window_fetch net now later c url options)"
| "apply_event c (Sweep now) = optimizeMemory now c"

definition run :: "event list \<Rightarrow> cache" where
  "run evs = foldl apply_event [] evs"

subsection \<open>Concrete values for the examples\<close>

definition example_response :: Response where
  "example_response = \<lparr>status = 200, headers = [], body = ''{temp:72}''\<rparr>"

definition not_found_response :: Response where
  "not_found_response = \<lparr>status = 404, headers = [], body = ''Not Found''\<rparr>"

text \<open>A transport that settles every request the same way.\<close>

definition always :: "error + Response \<Rightarrow> transport" where
  "always r url options = r"

definition weather_cache :: cache where
  "weather_cache =
     [(''weather/today.json_{}'',
       \<lparr>response = example_response, timestamp = 0, ttl = 600000\<rparr>)]"

definition offline :: transport where
  "offline = always (Inl (NetworkFailure ''offline''))"

definition history :: "event list" where
  "history =
     [Fetch (always (Inr example_response)) 0 5 ''about.html'' JUndefined,
      Fetch (always (Inr example_response)) 10 15 ''weather/today.json'' JUndefined,
      Sweep 20,
      Fetch (always (Inr example_response)) 30 35 ''about.html'' JUndefined]"

subsection \<open>Auxiliary notions for the proofs\<close>

text \<open>
  The properties of an object that \<^verbatim>\<open>JSON.stringify\<close> writes out: those whose value
  is neither \<^verbatim>\<open>undefined\<close> nor a function.
\<close>

definition defined_fields :: "(string \<times> jsval) list \<Rightarrow> (string \<times> jsval) list" where
  "defined_fields ps = filter (\<lambda>(k, v). v \<noteq> JUndefined \<and> v \<noteq> JFunction) ps"

text \<open>
  A scanner for serialized text: it is outside a string literal, inside one, or inside
  one just after a backslash. \<open>lexes st s\<close> says that, scanning \<open>s\<close> from state \<open>st\<close>,
  every underscore is met inside a string literal and no backslash outside of one.
\<close>

datatype lex = Outside | Inside | Escaped

fun lex_step :: "lex \<Rightarrow> char \<Rightarrow> lex" where
  "lex_step Outside c = (if c = CHR 0x22 then Inside else Outside)"
| "lex_step Inside c =
     (if c = CHR 0x22 then Outside else if c = CHR 0x5C then Escaped else Inside)"
| "lex_step Escaped c = Inside"

fun lexes :: "lex \<Rightarrow> string \<Rightarrow> bool" where
  "lexes st [] = True"
| "lexes st (c # cs) =
     ((c = CHR ''_'' \<longrightarrow> st = Inside) \<and> (c = CHR 0x5C \<longrightarrow> st \<noteq> Outside)
      \<and> lexes (lex_step st c) cs)"

definition json_text :: "string \<Rightarrow> bool" where
  "json_text s \<longleftrightarrow> lexes Outside s \<and> foldl lex_step Outside s = Outside"

section \<open>Properties\<close>

subsection \<open>Substring search\<close>

lemma str_includes_sublist: "str_includes s p \<longleftrightarrow> sublist p s"
  by (induction s) (auto simp: sublist_Cons_right)

lemma str_includes_iff: "str_includes s p \<longleftrightarrow> (\<exists>a b. s = a @ p @ b)"
  by (simp add: str_includes_sublist sublist_def)

lemma str_includes_appendI: "str_includes (a @ p @ b) p"
  by (simp add: str_includes_sublist)

subsection \<open>Classification\<close>

lemma list_ex_includes:
  "list_ex (\<lambda>ext. str_includes url ext) xs \<longleftrightarrow> (\<exists>m\<in>set xs. \<exists>a b. url = a @ m @ b)"
  by (simp add: list_ex_iff str_includes_iff)

text \<open>
  C10. \<^verbatim>\<open>shouldCache\<close> is substring containment: a URL is classified as cacheable
  exactly when one of the marker strings (the seven extension strings, \<^verbatim>\<open>weather\<close>,
  \<^verbatim>\<open>api\<close>) occurs anywhere in it, whatever precedes or follows the occurrence. So
  \<^verbatim>\<open>.json\<close> in the middle of a query string and \<^verbatim>\<open>api\<close> inside a longer word both
  make the URL cacheable.
\<close>

theorem shouldCache_substring:
  "shouldCache url \<longleftrightarrow>
     (\<exists>m \<in> set cacheableExtensions \<union> {''weather'', ''api''}. \<exists>a b. url = a @ m @ b)"
  unfolding shouldCache_def list_ex_includes str_includes_iff by blast

theorem shouldCache_substring_witness:
  "shouldCache (''/ther'' @ ''api'' @ ''st/notes.txt'')
   \<and> shouldCache (''/download?name=x'' @ ''.json'' @ ''.bak'')"
proof -
  have m1: "''api'' \<in> set cacheableExtensions \<union> {''weather'', ''api''}" by simp
  have m2: "''.json'' \<in> set cacheableExtensions \<union> {''weather'', ''api''}"
    by (simp add: cacheableExtensions_def)
  from m1 have "shouldCache (''/ther'' @ ''api'' @ ''st/notes.txt'')"
    unfolding shouldCache_substring by blast
  moreover from m2 have "shouldCache (''/download?name=x'' @ ''.json'' @ ''.bak'')"
    unfolding shouldCache_substring by blast
  ultimately show ?thesis by simp
qed

subsection \<open>Time to live\<close>

text \<open>
  The policy as \<^verbatim>\<open>getCacheTTL\<close> implements it: the first test that succeeds decides,
  and the image test looks for \<^verbatim>\<open>.jpg\<close> and \<^verbatim>\<open>.png\<close> only.
\<close>

lemma getCacheTTL_policy:
  "getCacheTTL url =
     (if (\<exists>a b. url = a @ ''weather'' @ b) then 600000
      else if (\<exists>a b. url = a @ ''.kml'' @ b) then 3600000
      else if (\<exists>a b. url = a @ ''.jpg'' @ b) \<or> (\<exists>a b. url = a @ ''.png'' @ b) then 86400000
      else 1800000)"
  by (simp add: getCacheTTL_def str_includes_iff)

text \<open>
  C4. The claim gives every image-format resource 24 hours. \<^verbatim>\<open>shouldCache\<close> lists
  \<^verbatim>\<open>.jpeg\<close> among the cacheable extensions, but \<^verbatim>\<open>getCacheTTL\<close> tests for \<^verbatim>\<open>.jpg\<close>
  and \<^verbatim>\<open>.png\<close> only, and \<^verbatim>\<open>.jpeg\<close> does not contain \<^verbatim>\<open>.jpg\<close>: a JPEG image
  named \<^verbatim>\<open>photos/summit.jpeg\<close> is cacheable and receives the default of 30 minutes.
\<close>

theorem getCacheTTL_jpeg:
  "shouldCache ''photos/summit.jpeg'' \<and> getCacheTTL ''photos/summit.jpeg'' = 30 * 60 * 1000"
  by (simp add: shouldCache_def getCacheTTL_def cacheableExtensions_def)

subsection \<open>The sweep\<close>

lemma sweep_loop_filter:
  "sweep_loop now es c =
     filter (\<lambda>(k, e). \<not> (\<exists>e'. (k, e') \<in> set es \<and> now - timestamp e' > ttl e')) c"
proof (induction es arbitrary: c)
  case Nil
  show ?case by simp
next
  case (Cons p es)
  obtain key val where p: "p = (key, val)" by (cases p)
  show ?case
    unfolding p sweep_loop.simps Cons.IH
    by (auto simp: Map_delete_def AList.delete_eq intro!: filter_cong)
qed

text \<open>
  On a map (no key twice) the sweep keeps exactly the entries whose age is at most their
  time to live, in their order.
\<close>

lemma optimizeMemory_filter:
  assumes "distinct (map fst c)"
  shows "optimizeMemory now c = filter (\<lambda>(k, e). \<not> now - timestamp e > ttl e) c"
proof -
  have "(\<exists>e'. (k, e') \<in> set c \<and> now - timestamp e' > ttl e') \<longleftrightarrow> now - timestamp e > ttl e"
    if "(k, e) \<in> set c" for k e
    using that assms by (auto dest: eq_key_imp_eq_value)
  then show ?thesis
    unfolding optimizeMemory_def sweep_loop_filter
    by (intro filter_cong) auto
qed

lemma optimizeMemory_keys: "fst ` set (optimizeMemory now c) \<subseteq> fst ` set c"
  unfolding optimizeMemory_def sweep_loop_filter by auto

text \<open>
  C7. The claim has the sweep remove every entry with \<open>now - storedAt \<ge> timeToLive\<close>.
  \<^verbatim>\<open>optimizeMemory\<close> tests \<^verbatim>\<open>now - value.timestamp > value.ttl\<close>: an entry whose age
  equals its time to live is no longer valid for \<^verbatim>\<open>isCacheValid\<close>, and the sweep
  leaves it in the map.
\<close>

theorem optimizeMemory_boundary:
  "isCacheValid 1800000
     [(''k'', \<lparr>response = example_response, timestamp = 0, ttl = 1800000\<rparr>)] ''k'' = False
   \<and> optimizeMemory 1800000
       [(''k'', \<lparr>response = example_response, timestamp = 0, ttl = 1800000\<rparr>)]
     = [(''k'', \<lparr>response = example_response, timestamp = 0, ttl = 1800000\<rparr>)]"
  by (simp add: isCacheValid_def optimizeMemory_def Map_get_def)

subsection \<open>The wrapper: one call\<close>

text \<open>The wrapper once the key is computed, and when it cannot be.\<close>

lemma window_fetch_key:
  assumes "cacheKey url (default_options options) = Inr key"
  shows "window_fetch net now later c url options =
     (if Map_has c key \<and> isCacheValid now c key
      then \<lparr>result = cached_clone c key, cache_after = c, transport_calls = []\<rparr>
      else
        (case net url (default_options options) of
           Inr resp \<Rightarrow>
             \<lparr>result = Inr resp,
              cache_after =
                (if ok resp \<and> shouldCache url
                 then Map_set key
                        \<lparr>response = clone resp, timestamp = later, ttl = getCacheTTL url\<rparr> c
                 else c),
              transport_calls = [(url, default_options options)]\<rparr>
         | Inl err \<Rightarrow>
             if Map_has c key
             then \<lparr>result = cached_clone c key, cache_after = c,
                   transport_calls = [(url, default_options options)]\<rparr>
             else \<lparr>result = Inl err, cache_after = c,
                   transport_calls = [(url, default_options options)]\<rparr>))"
  using assms by (simp add: window_fetch_def Let_def)

lemma window_fetch_throw:
  assumes "cacheKey url (default_options options) = Inl err"
  shows "window_fetch net now later c url options =
     \<lparr>result = Inl err, cache_after = c, transport_calls = []\<rparr>"
  using assms by (simp add: window_fetch_def)

lemma fresh_iff:
  "Map_has c key \<and> isCacheValid now c key \<longleftrightarrow>
     (\<exists>e. map_of c key = Some e \<and> now - timestamp e < ttl e)"
  by (auto simp: Map_has_def isCacheValid_def Map_get_def split: option.splits)

lemma weather_key:
  "cacheKey ''weather/today.json'' (default_options JUndefined) = Inr ''weather/today.json_{}''"
  by (simp add: cacheKey_def default_options_def)

text \<open>
  C1. When the key of a call is computed, the underlying transport is invoked (once, with
  the URL and the options of the call) if and only if the map holds no fresh entry for
  that key, an entry being fresh when \<open>now - timestamp < ttl\<close>. When a fresh entry exists
  the call resolves with the stored response, leaves the map as it is and makes no call
  of the transport.
\<close>

theorem fetch_transport_iff_no_fresh_entry:
  assumes "cacheKey url (default_options options) = Inr key"
  shows "transport_calls (window_fetch net now later c url options) =
           (if \<exists>e. map_of c key = Some e \<and> now - timestamp e < ttl e then []
            else [(url, default_options options)])
         \<and> (\<forall>e. map_of c key = Some e \<and> now - timestamp e < ttl e \<longrightarrow>
               window_fetch net now later c url options =
                 \<lparr>result = Inr (response e), cache_after = c, transport_calls = []\<rparr>)"
  unfolding window_fetch_key [OF assms] fresh_iff
  by (auto simp: cached_clone_def Map_get_def clone_def split: sum.splits)

theorem fetch_transport_iff_no_fresh_entry_witness:
  "window_fetch offline 1000 1001 weather_cache ''weather/today.json'' JUndefined
     = \<lparr>result = Inr example_response, cache_after = weather_cache, transport_calls = []\<rparr>
   \<and> transport_calls (window_fetch offline 660000 660001 weather_cache ''weather/today.json'' JUndefined)
       \<noteq> []"
  using fetch_transport_iff_no_fresh_entry [OF weather_key, of offline 1000 1001 weather_cache]
    fetch_transport_iff_no_fresh_entry [OF weather_key, of offline 660000 660001 weather_cache]
  by (simp add: weather_cache_def)

lemma offline_rejects:
  "offline ''weather/today.json'' (default_options JUndefined) = Inl (NetworkFailure ''offline'')"
  by (simp add: offline_def always_def)

text \<open>
  C2. When the transport rejects the request of a call: if the map holds any entry for
  the key, fresh or stale, the call resolves with that entry's response; if it holds
  none, the call rejects with the very error of the transport, after a single call of
  the transport. The map is not changed.
\<close>

theorem fetch_network_failure:
  assumes "cacheKey url (default_options options) = Inr key"
    and "net url (default_options options) = Inl err"
  shows "result (window_fetch net now later c url options) =
           (case map_of c key of Some e \<Rightarrow> Inr (response e) | None \<Rightarrow> Inl err)
         \<and> cache_after (window_fetch net now later c url options) = c
         \<and> (map_of c key = None \<longrightarrow>
              transport_calls (window_fetch net now later c url options)
                = [(url, default_options options)])"
  unfolding window_fetch_key [OF assms(1)] fresh_iff
  using assms(2)
  by (auto simp: cached_clone_def Map_get_def Map_has_def clone_def split: option.splits)

theorem fetch_network_failure_witness:
  "result (window_fetch offline 7200000 7200001 weather_cache ''weather/today.json'' JUndefined)
     = Inr example_response
   \<and> result (window_fetch offline 7200000 7200001 [] ''weather/today.json'' JUndefined)
     = Inl (NetworkFailure ''offline'')
   \<and> transport_calls (window_fetch offline 7200000 7200001 [] ''weather/today.json'' JUndefined)
     = [(''weather/today.json'', JObject [])]"
  using fetch_network_failure [where net = offline and now = 7200000 and later = 7200001
      and c = weather_cache, OF weather_key offline_rejects]
    fetch_network_failure [where net = offline and now = 7200000 and later = 7200001
      and c = "[]", OF weather_key offline_rejects]
  by (simp add: weather_cache_def default_options_def)

text \<open>
  C3, as stated, fails: the claim stores an entry for every cacheable resource whatever
  the HTTP status. The wrapper tests \<^verbatim>\<open>response.ok\<close> before it stores: a 404 for the
  cacheable \<^verbatim>\<open>trail/data.json\<close> is returned to the caller and the map stays empty.
\<close>

theorem http_error_not_stored:
  "shouldCache ''trail/data.json''
   \<and> result (window_fetch (always (Inr not_found_response)) 0 1 [] ''trail/data.json'' (JObject []))
       = Inr not_found_response
   \<and> cache_after (window_fetch (always (Inr not_found_response)) 0 1 [] ''trail/data.json'' (JObject []))
       = []"
  by (simp add: shouldCache_def cacheableExtensions_def window_fetch_def default_options_def
      cacheKey_def Map_has_def always_def ok_def not_found_response_def)

lemma data_key:
  "cacheKey ''trail/data.json'' (default_options (JObject [])) = Inr ''trail/data.json_{}''"
  by (simp add: cacheKey_def default_options_def)

text \<open>
  C3, amended. When no fresh entry exists and the transport resolves with a response,
  the call resolves with that response; an entry with that response,
  \<open>timestamp = later\<close> (the clock when the entry is built) and the time to live of the
  policy is stored under the key exactly when the resource is cacheable and the status
  is in the range 200 to 299. With any other status the map is unchanged.
\<close>

theorem fetch_success_stores_ok_only:
  assumes "cacheKey url (default_options options) = Inr key"
    and "\<not> (\<exists>e. map_of c key = Some e \<and> now - timestamp e < ttl e)"
    and "net url (default_options options) = Inr resp"
  shows "result (window_fetch net now later c url options) = Inr resp
         \<and> map_of (cache_after (window_fetch net now later c url options)) =
             (if 200 \<le> status resp \<and> status resp \<le> 299 \<and> shouldCache url
              then (map_of c)(key \<mapsto> \<lparr>response = resp, timestamp = later, ttl = getCacheTTL url\<rparr>)
              else map_of c)"
  unfolding window_fetch_key [OF assms(1)] fresh_iff
  using assms(2,3)
  by (auto simp: Map_set_def update_conv' clone_def ok_def)

theorem fetch_success_stores_ok_only_witness:
  "map_of (cache_after (window_fetch (always (Inr example_response)) 0 1 [] ''trail/data.json'' (JObject [])))
     = [''trail/data.json_{}'' \<mapsto> \<lparr>response = example_response, timestamp = 1, ttl = 1800000\<rparr>]
   \<and> map_of (cache_after (window_fetch (always (Inr not_found_response)) 0 1 [] ''trail/data.json'' (JObject [])))
     = Map.empty"
proof -
  have nf: "\<not> (\<exists>e. map_of ([] :: cache) ''trail/data.json_{}'' = Some e \<and> 0 - timestamp e < ttl e)"
    by simp
  have r1: "always (Inr example_response) ''trail/data.json'' (default_options (JObject []))
      = Inr example_response"
    and r2: "always (Inr not_found_response) ''trail/data.json'' (default_options (JObject []))
      = Inr not_found_response"
    by (simp_all add: always_def)
  have sc: "shouldCache ''trail/data.json''" and ttl: "getCacheTTL ''trail/data.json'' = 1800000"
    by (simp_all add: shouldCache_def cacheableExtensions_def getCacheTTL_def)
  from fetch_success_stores_ok_only [where net = "always (Inr example_response)" and later = 1,
      OF data_key nf r1]
    fetch_success_stores_ok_only [where net = "always (Inr not_found_response)" and later = 1,
      OF data_key nf r2] sc ttl
  show ?thesis by (simp add: example_response_def not_found_response_def)
qed

lemma bigint_throws: "JSON_stringify (default_options (JObject [(''body'', JBigInt 1)])) = Throws"
  by (simp add: default_options_def)

text \<open>
  C5. When \<^verbatim>\<open>JSON.stringify\<close> throws on the options, the call rejects with that error,
  whatever the map holds: no entry is read, the map is unchanged and the transport is
  not called.
\<close>

theorem fetch_serialization_error:
  assumes "JSON_stringify (default_options options) = Throws"
  shows "window_fetch net now later c url options =
           \<lparr>result = Inl SerializationError, cache_after = c, transport_calls = []\<rparr>"
  using assms by (simp add: window_fetch_def cacheKey_def)

theorem fetch_serialization_error_witness:
  "window_fetch (always (Inr example_response)) 1000 1001 weather_cache ''weather/today.json''
     (JObject [(''body'', JBigInt 1)])
   = \<lparr>result = Inl SerializationError, cache_after = weather_cache, transport_calls = []\<rparr>"
  using fetch_serialization_error [OF bigint_throws] by simp

text \<open>
  C9. A call of the wrapper removes no entry: every key present before the call is
  present after it. The entry of every key other than the key of the call is unchanged.
\<close>

theorem fetch_frame:
  "(\<forall>k. map_of c k \<noteq> None \<longrightarrow> map_of (cache_after (window_fetch net now later c url options)) k \<noteq> None)
   \<and> (\<forall>k. cacheKey url (default_options options) \<noteq> Inr k \<longrightarrow>
         map_of (cache_after (window_fetch net now later c url options)) k = map_of c k)"
  by (auto simp: window_fetch_def Let_def Map_set_def update_conv' split: sum.splits)

theorem fetch_frame_witness:
  "map_of (cache_after (window_fetch (always (Inr example_response)) 7200000 7200001 weather_cache
       ''trail/map.kml'' JUndefined)) ''weather/today.json_{}''
     = Some \<lparr>response = example_response, timestamp = 0, ttl = 600000\<rparr>"
proof -
  have "cacheKey ''trail/map.kml'' (default_options JUndefined) \<noteq> Inr ''weather/today.json_{}''"
    by (simp add: cacheKey_def default_options_def)
  with fetch_frame [of weather_cache "always (Inr example_response)" 7200000 7200001
      "''trail/map.kml''" JUndefined]
  show ?thesis by (simp add: weather_cache_def)
qed

subsection \<open>Serialization of the options\<close>

text \<open>
  C6, as stated, fails: \<^verbatim>\<open>JSON.stringify\<close> writes the fields in the order in which the
  object lists them, and the wrapper does not sort them. Two option objects with the
  same method and body, written in different orders, get different keys.
\<close>

theorem field_order_changes_key:
  "set [(''method'', JStr ''POST''), (''body'', JStr ''x'')]
     = set [(''body'', JStr ''x''), (''method'', JStr ''POST'')]
   \<and> JSON_stringify (JObject [(''method'', JStr ''POST''), (''body'', JStr ''x'')])
     \<noteq> JSON_stringify (JObject [(''body'', JStr ''x''), (''method'', JStr ''POST'')])
   \<and> cacheKey ''api/trails'' (JObject [(''method'', JStr ''POST''), (''body'', JStr ''x'')])
     \<noteq> cacheKey ''api/trails'' (JObject [(''body'', JStr ''x''), (''method'', JStr ''POST'')])"
  by (auto simp: cacheKey_def QuoteJSONString_def quote_char_def)

lemma concat_map_filter:
  "(\<And>x. x \<in> set xs \<Longrightarrow> \<not> P x \<Longrightarrow> f x = []) \<Longrightarrow> concat (map f (filter P xs)) = concat (map f xs)"
  by (induction xs) auto

lemma stringify_undefined: "v = JUndefined \<or> v = JFunction \<Longrightarrow> JSON_stringify v = Undefined"
  by auto

lemma stringify_object_defined_fields:
  "JSON_stringify (JObject (defined_fields ps)) = JSON_stringify (JObject ps)"
proof -
  let ?P = "\<lambda>(k, v). v \<noteq> JUndefined \<and> v \<noteq> JFunction"
  let ?g = "\<lambda>(k, v). (k, JSON_stringify v)"
  let ?f = "\<lambda>(k, r). case r of Text t \<Rightarrow> [QuoteJSONString k @ '':'' @ t] | _ \<Rightarrow> []"
  have thr: "Throws \<in> snd ` set (map ?g (filter ?P ps)) \<longleftrightarrow> Throws \<in> snd ` set (map ?g ps)"
    by (force simp: image_iff)
  have "concat (map (?f \<circ> ?g) (filter ?P ps)) = concat (map (?f \<circ> ?g) ps)"
    by (rule concat_map_filter) (auto dest: stringify_undefined)
  then have cat: "concat (map ?f (map ?g (filter ?P ps))) = concat (map ?f (map ?g ps))"
    by simp
  show ?thesis
    unfolding defined_fields_def JSON_stringify.simps Let_def thr cat by (rule refl)
qed

text \<open>
  C6, amended. Two option objects whose written-out fields (those whose value is neither
  \<^verbatim>\<open>undefined\<close> nor a function) are the same, with the same values, in the same order,
  serialize to the same string and so get the same key; one call is answered from the
  map exactly when the other is, and then with the same result.
\<close>

theorem same_defined_fields_same_key:
  assumes "defined_fields ps = defined_fields qs"
  shows "JSON_stringify (JObject ps) = JSON_stringify (JObject qs)
         \<and> cacheKey url (JObject ps) = cacheKey url (JObject qs)
         \<and> (transport_calls (window_fetch net now later c url (JObject ps)) = []
              \<longleftrightarrow> transport_calls (window_fetch net now later c url (JObject qs)) = [])
         \<and> (transport_calls (window_fetch net now later c url (JObject ps)) = []
              \<longrightarrow> result (window_fetch net now later c url (JObject ps))
                   = result (window_fetch net now later c url (JObject qs)))"
proof -
  have s: "JSON_stringify (JObject ps) = JSON_stringify (JObject qs)"
    using stringify_object_defined_fields [of ps] stringify_object_defined_fields [of qs] assms
    by simp
  then have k: "cacheKey url (JObject ps) = cacheKey url (JObject qs)"
    by (simp add: cacheKey_def)
  have d: "default_options (JObject ps) = JObject ps" "default_options (JObject qs) = JObject qs"
    by (simp_all add: default_options_def)
  show ?thesis
  proof (cases "cacheKey url (JObject ps)")
    case (Inl err)
    with k have kp: "cacheKey url (default_options (JObject ps)) = Inl err"
      and kq: "cacheKey url (default_options (JObject qs)) = Inl err"
      by (simp_all add: d)
    show ?thesis
      unfolding window_fetch_throw [OF kp] window_fetch_throw [OF kq]
      using s k by simp
  next
    case (Inr key)
    with k have kp: "cacheKey url (default_options (JObject ps)) = Inr key"
      and kq: "cacheKey url (default_options (JObject qs)) = Inr key"
      by (simp_all add: d)
    show ?thesis
      unfolding window_fetch_key [OF kp] window_fetch_key [OF kq]
      using s k by (simp split: sum.splits)
  qed
qed

theorem same_defined_fields_same_key_witness:
  "cacheKey ''api/trails'' (JObject [(''method'', JStr ''POST''), (''body'', JUndefined)])
     = cacheKey ''api/trails'' (JObject [(''method'', JStr ''POST'')])"
proof -
  have "defined_fields [(''method'', JStr ''POST''), (''body'', JUndefined)]
      = defined_fields [(''method'', JStr ''POST'')]"
    by (simp add: defined_fields_def)
  from same_defined_fields_same_key [OF this] show ?thesis by simp
qed

subsection \<open>The key determines the URL\<close>

lemma lexes_append: "lexes st (a @ b) \<longleftrightarrow> lexes st a \<and> lexes (foldl lex_step st a) b"
  by (induction a arbitrary: st) auto

lemma lex_complement:
  assumes "st \<noteq> Escaped" "st' \<noteq> Escaped" "st \<noteq> st'" "lexes st s" "lexes st' s"
  shows "foldl lex_step st s \<noteq> foldl lex_step st' s"
  using assms
proof (induction s arbitrary: st st')
  case Nil
  then show ?case by simp
next
  case (Cons c s)
  from Cons.prems have nb: "c \<noteq> CHR 0x5C"
    by (cases st; cases st') auto
  have "foldl lex_step (lex_step st c) s \<noteq> foldl lex_step (lex_step st' c) s"
  proof (rule Cons.IH)
    show "lex_step st c \<noteq> Escaped" using nb Cons.prems(1) by (cases st) auto
    show "lex_step st' c \<noteq> Escaped" using nb Cons.prems(2) by (cases st') auto
    show "lex_step st c \<noteq> lex_step st' c"
      using nb Cons.prems(1,2,3) by (cases st; cases st') auto
    show "lexes (lex_step st c) s" using Cons.prems(4) by simp
    show "lexes (lex_step st' c) s" using Cons.prems(5) by simp
  qed
  then show ?case by simp
qed

lemma plain_lex:
  assumes "CHR 0x22 \<notin> set s" "CHR 0x5C \<notin> set s" "CHR ''_'' \<notin> set s \<or> st = Inside" "st \<noteq> Escaped"
  shows "foldl lex_step st s = st \<and> lexes st s"
  using assms by (induction s) (cases st; auto)+

lemma json_text_plain:
  "CHR 0x22 \<notin> set s \<Longrightarrow> CHR 0x5C \<notin> set s \<Longrightarrow> CHR ''_'' \<notin> set s \<Longrightarrow> json_text s"
  unfolding json_text_def using plain_lex [of s Outside] by simp

lemma json_text_append: "json_text a \<Longrightarrow> json_text b \<Longrightarrow> json_text (a @ b)"
  by (simp add: json_text_def lexes_append)

lemma hex_digit_mem: "hex_digit n \<in> set ''0123456789abcdef''"
  unfolding hex_digit_def by (rule nth_mem) simp

lemma hex_digit_plain:
  "hex_digit n \<noteq> CHR 0x22" "hex_digit n \<noteq> CHR 0x5C" "hex_digit n \<noteq> CHR ''_''"
  using hex_digit_mem [of n] by auto

lemma quote_char_lex:
  "foldl lex_step Inside (quote_char c) = Inside \<and> lexes Inside (quote_char c)"
  by (simp add: quote_char_def hex_digit_plain)

lemma quoted_lex:
  "foldl lex_step Inside (concat (map quote_char s)) = Inside
   \<and> lexes Inside (concat (map quote_char s))"
  by (induction s) (simp_all add: lexes_append quote_char_lex)

lemma json_text_QuoteJSONString: "json_text (QuoteJSONString s)"
  by (simp add: json_text_def QuoteJSONString_def lexes_append quoted_lex)

lemma digits_plain:
  "CHR 0x22 \<notin> set (digits n) \<and> CHR 0x5C \<notin> set (digits n) \<and> CHR ''_'' \<notin> set (digits n)"
proof (induction n rule: digits.induct)
  case (1 n)
  show ?case
  proof (cases "n < 10")
    case True
    then have "digits n = [hex_digit n]" by (subst digits.simps) simp
    then show ?thesis using hex_digit_plain [of n] by auto
  next
    case False
    then have "digits n = digits (n div 10) @ [hex_digit (n mod 10)]"
      by (subst digits.simps) simp
    then show ?thesis using hex_digit_plain [of "n mod 10"] 1 [OF False] by auto
  qed
qed

lemma json_text_NumberToString: "json_text (NumberToString i)"
proof (rule json_text_plain)
  show "CHR 0x22 \<notin> set (NumberToString i)" "CHR 0x5C \<notin> set (NumberToString i)"
    "CHR ''_'' \<notin> set (NumberToString i)"
    using digits_plain [of "nat i"] digits_plain [of "nat (- i)"]
    by (simp_all add: NumberToString_def)
qed

lemma json_text_join:
  "(\<And>x. x \<in> set xs \<Longrightarrow> json_text x) \<Longrightarrow> json_text (join '','' xs)"
proof (induction "'',''" xs rule: join.induct)
  case 1
  show ?case by (simp add: json_text_def)
next
  case (2 x)
  then show ?case by simp
next
  case (3 x y ys)
  have c: "json_text '',''" by (simp add: json_text_def)
  have x: "json_text x" and r: "json_text (join '','' (y # ys))"
    using 3 by simp_all
  have "json_text (x @ '','' @ join '','' (y # ys))"
    by (intro json_text_append x c r)
  then show ?case by simp
qed

lemma json_text_stringify: "JSON_stringify v = Text t \<Longrightarrow> json_text t"
proof (induction v arbitrary: t rule: JSON_stringify.induct)
  case (9 xs)
  let ?rs = "map JSON_stringify xs"
  let ?ts = "map (\<lambda>r. case r of Text t \<Rightarrow> t | _ \<Rightarrow> ''null'') ?rs"
  from "9.prems" have t: "t = ''['' @ join '','' ?ts @ '']''"
    by (simp add: Let_def split: if_splits)
  have "json_text x" if "x \<in> set ?ts" for x
  proof -
    from that obtain v where v: "v \<in> set xs"
      and x: "x = (case JSON_stringify v of Text t \<Rightarrow> t | _ \<Rightarrow> ''null'')" by auto
    show ?thesis
    proof (cases "JSON_stringify v")
      case (Text s)
      with v x "9.IH" show ?thesis by simp
    qed (simp_all add: x json_text_def)
  qed
  then have "json_text (join '','' ?ts)" by (rule json_text_join)
  moreover have "json_text ''[''" "json_text '']''" by (simp_all add: json_text_def)
  ultimately show ?case unfolding t by (intro json_text_append)
next
  case (10 ps)
  let ?rs = "map (\<lambda>(k, v). (k, JSON_stringify v)) ps"
  let ?ts = "concat (map (\<lambda>(k, r). case r of Text t \<Rightarrow> [QuoteJSONString k @ '':'' @ t] | _ \<Rightarrow> []) ?rs)"
  from "10.prems" have t: "t = ''{'' @ join '','' ?ts @ ''}''"
    by (simp add: Let_def split: if_splits)
  have colon: "json_text '':''" by (simp add: json_text_def)
  have "json_text x" if "x \<in> set ?ts" for x
  proof -
    from that obtain k v where kv: "(k, v) \<in> set ps"
      and m: "x \<in> set (case JSON_stringify v of Text t \<Rightarrow> [QuoteJSONString k @ '':'' @ t]
                           | _ \<Rightarrow> [])"
      by auto
    from m obtain s where s: "JSON_stringify v = Text s"
      and x: "x = QuoteJSONString k @ '':'' @ s"
      by (cases "JSON_stringify v") simp_all
    from "10.IH" [OF kv refl s] have "json_text s" .
    then show ?thesis unfolding x
      by (intro json_text_append json_text_QuoteJSONString colon)
  qed
  then have "json_text (join '','' ?ts)" by (rule json_text_join)
  moreover have "json_text ''{''" "json_text ''}''" by (simp_all add: json_text_def)
  ultimately show ?case unfolding t by (intro json_text_append)
next
  case (4 b)
  then show ?case by (cases b) (auto simp: json_text_def)
next
  case (5 i)
  then show ?case using json_text_NumberToString [of i] by simp
next
  case (6 s)
  then show ?case using json_text_QuoteJSONString [of s] by simp
qed (auto simp: json_text_def)

lemma json_text_no_tail:
  assumes "json_text s1" "json_text s2" "s1 = r @ ''_'' @ s2"
  shows False
proof -
  from assms(1,3) have l: "lexes Outside (r @ CHR ''_'' # s2)"
    and e: "foldl lex_step Outside (r @ CHR ''_'' # s2) = Outside"
    by (simp_all add: json_text_def)
  from l have st: "foldl lex_step Outside r = Inside" and l2: "lexes Inside s2"
    by (auto simp: lexes_append)
  from e st have e2: "foldl lex_step Inside s2 = Outside" by simp
  from assms(2) have "lexes Outside s2" "foldl lex_step Outside s2 = Outside"
    by (simp_all add: json_text_def)
  with lex_complement [of Outside Inside s2] l2 e2 show False by simp
qed

lemma cacheKey_text:
  assumes "cacheKey url options = Inr k"
  obtains t where "k = url @ ''_'' @ t" "json_text t"
proof -
  show thesis
  proof (cases "JSON_stringify options")
    case Throws
    with assms show ?thesis by (simp add: cacheKey_def)
  next
    case Undefined
    with assms have "k = url @ ''_'' @ ''undefined''" by (simp add: cacheKey_def)
    moreover have "json_text ''undefined''" by (simp add: json_text_def)
    ultimately show ?thesis by (rule that)
  next
    case (Text t)
    with assms have "k = url @ ''_'' @ t" by (simp add: cacheKey_def)
    moreover from Text have "json_text t" by (rule json_text_stringify)
    ultimately show ?thesis by (rule that)
  qed
qed

lemma cacheKey_url_inj:
  assumes "cacheKey u1 o1 = Inr k" "cacheKey u2 o2 = Inr k"
  shows "u1 = u2"
proof -
  from assms(1) obtain t1 where k1: "k = u1 @ ''_'' @ t1" and t1: "json_text t1"
    by (rule cacheKey_text)
  from assms(2) obtain t2 where k2: "k = u2 @ ''_'' @ t2" and t2: "json_text t2"
    by (rule cacheKey_text)
  from k1 k2 have "u1 @ (CHR ''_'' # t1) = u2 @ (CHR ''_'' # t2)" by simp
  then obtain w where "u1 = u2 @ w \<and> w @ (CHR ''_'' # t1) = CHR ''_'' # t2
      \<or> u1 @ w = u2 \<and> CHR ''_'' # t1 = w @ (CHR ''_'' # t2)"
    unfolding append_eq_append_conv2 by blast
  then show ?thesis
  proof (elim disjE conjE)
    assume u: "u1 = u2 @ w" and w: "w @ (CHR ''_'' # t1) = CHR ''_'' # t2"
    show ?thesis
    proof (cases w)
      case Nil
      with u show ?thesis by simp
    next
      case (Cons c r)
      with w have "t2 = r @ ''_'' @ t1" by simp
      with json_text_no_tail [OF t2 t1] show ?thesis by blast
    qed
  next
    assume u: "u1 @ w = u2" and w: "CHR ''_'' # t1 = w @ (CHR ''_'' # t2)"
    show ?thesis
    proof (cases w)
      case Nil
      with u show ?thesis by simp
    next
      case (Cons c r)
      with w have "t1 = r @ ''_'' @ t2" by simp
      with json_text_no_tail [OF t1 t2] show ?thesis by blast
    qed
  qed
qed

subsection \<open>Histories\<close>

lemma apply_event_keys:
  assumes "k \<in> fst ` set (apply_event c ev)"
  shows "k \<in> fst ` set c \<or> (\<exists>u opts. shouldCache u \<and> cacheKey u opts = Inr k)"
proof (cases ev)
  case (Fetch net now later url options)
  show ?thesis
  proof (cases "cacheKey url (default_options options)")
    case (Inl err)
    with assms Fetch show ?thesis by (simp add: window_fetch_def)
  next
    case (Inr key)
    have "k \<in> fst ` set c \<or> (k = key \<and> shouldCache url)"
      using assms unfolding Fetch apply_event.simps window_fetch_key [OF Inr]
      by (auto simp: Map_set_def dom_update split: if_splits sum.splits)
    with Inr show ?thesis by blast
  qed
next
  case (Sweep now)
  with assms optimizeMemory_keys [of now c] show ?thesis by auto
qed

lemma foldl_apply_event_keys:
  assumes "k \<in> fst ` set (foldl apply_event c evs)"
  shows "k \<in> fst ` set c \<or> (\<exists>u opts. shouldCache u \<and> cacheKey u opts = Inr k)"
  using assms
proof (induction evs arbitrary: c)
  case Nil
  then show ?case by simp
next
  case (Cons ev evs)
  from Cons.prems have "k \<in> fst ` set (foldl apply_event (apply_event c ev) evs)" by simp
  from Cons.IH [OF this] apply_event_keys [of k c ev] show ?case by blast
qed

lemma run_keys:
  "k \<in> fst ` set (run evs) \<Longrightarrow> \<exists>u opts. shouldCache u \<and> cacheKey u opts = Inr k"
  unfolding run_def using foldl_apply_event_keys [of k "[]" evs] by simp

lemma about_key: "cacheKey ''about.html'' (default_options JUndefined) = Inr ''about.html_{}''"
  by (simp add: cacheKey_def default_options_def)

lemma about_not_cacheable: "\<not> shouldCache ''about.html''"
  by (simp add: shouldCache_def cacheableExtensions_def)

text \<open>
  C8. For a URL that \<^verbatim>\<open>shouldCache\<close> rejects, after any history of calls of the wrapper
  (of any URLs, with any options and any outcome of the transport) and sweeps, the map
  holds no entry under a key of that URL. A call for it is therefore never answered from
  the map: it calls the transport once, settles exactly as the transport does, and
  leaves the map as it was.
\<close>

theorem uncacheable_never_stored:
  assumes "\<not> shouldCache url"
    and "cacheKey url (default_options options) = Inr key"
  shows "map_of (run evs) key = None
         \<and> window_fetch net now later (run evs) url options =
             \<lparr>result = net url (default_options options), cache_after = run evs,
              transport_calls = [(url, default_options options)]\<rparr>"
proof -
  have none: "map_of (run evs) key = None"
  proof (rule ccontr)
    assume "map_of (run evs) key \<noteq> None"
    then have "key \<in> fst ` set (run evs)" by (simp add: map_of_eq_None_iff)
    from run_keys [OF this] obtain u opts where u: "shouldCache u" and k: "cacheKey u opts = Inr key"
      by blast
    from cacheKey_url_inj [OF k assms(2)] u assms(1) show False by simp
  qed
  then have "\<not> Map_has (run evs) key" by (simp add: Map_has_def)
  with none assms(1) show ?thesis
    unfolding window_fetch_key [OF assms(2)]
    by (simp split: sum.splits)
qed

theorem uncacheable_never_stored_witness:
  "\<not> shouldCache ''about.html''
   \<and> map_of (run history) ''about.html_{}'' = None
   \<and> transport_calls (window_fetch (always (Inl (NetworkFailure ''offline''))) 40 45 (run history)
         ''about.html'' JUndefined) = [(''about.html'', JObject [])]
   \<and> result (window_fetch (always (Inl (NetworkFailure ''offline''))) 40 45 (run history)
         ''about.html'' JUndefined) = Inl (NetworkFailure ''offline'')"
  using uncacheable_never_stored [OF about_not_cacheable about_key, of history "always (Inl (NetworkFailure ''offline''))" 40 45]
    about_not_cacheable
  by (simp add: always_def default_options_def)

end
